theory Spec2Isabelle
  imports Main "HOL-Library.Word" "HOL-Library.Log_Nat"
begin

section \<open>Data model of \<open>tree/binarytree.hpp\<close>\<close>

text \<open>
  \<open>enum VisitingOrder\<close> and the one exception class of the header.
\<close>

datatype VisitingOrder = InOrder | PreOrder | PostOrder

datatype error = EmptyTreeException

text \<open>
  A \<open>std::unique_ptr<TreeNode<T>>\<close> is either \<open>nullptr\<close> or the exclusive owner of one
  \<open>TreeNode\<close> with its \<open>value\<close>, \<open>left\<close> and \<open>right\<close> members (in that order). Exclusive
  ownership makes every tree a finite, unshared term, so a datatype is a faithful model.
\<close>

datatype 'a node_ptr =
    nullptr
  | TreeNode (node_value: 'a) (node_left: "'a node_ptr") (node_right: "'a node_ptr")

text \<open>\<open>std::make_unique<Node>(val)\<close>: the constructor \<open>TreeNode(T const& val)\<close>.\<close>

definition make_unique :: "'a \<Rightarrow> 'a node_ptr" where
  "make_unique val = TreeNode val nullptr nullptr"

text \<open>The class \<open>BinaryTree<T>\<close> with its two private members.\<close>

record 'a BinaryTree =
  root :: "'a node_ptr"
  order :: VisitingOrder

text \<open>\<open>BinaryTree()\<close> and \<open>BinaryTree(T val, VisitingOrder order)\<close>.\<close>

definition BinaryTree_default :: "'a BinaryTree" where
  "BinaryTree_default = \<lparr>root = nullptr, order = InOrder\<rparr>"

definition BinaryTree_val :: "'a \<Rightarrow> VisitingOrder \<Rightarrow> 'a BinaryTree" where
  "BinaryTree_val val ord = \<lparr>root = make_unique val, order = ord\<rparr>"

subsection \<open>Raw node pointers\<close>

text \<open>
  \<open>insert\<close> walks the tree with raw \<open>Node*\<close> variables and finally writes through one of
  them. Since no node is shared, a raw pointer is modelled by the path of the owning slot,
  counted from the \<open>root\<close> member: \<open>[]\<close> is the root slot, \<open>p @ [GoLeft]\<close> the \<open>left\<close> member
  of the node held by slot \<open>p\<close>. \<open>node_at\<close> is \<open>.get()\<close> on a slot, \<open>assign_at\<close> the
  assignment to a slot.
\<close>

datatype dir = GoLeft | GoRight

fun child :: "dir \<Rightarrow> 'a node_ptr \<Rightarrow> 'a node_ptr" where
  "child d nullptr = nullptr"
| "child GoLeft (TreeNode v l r) = l"
| "child GoRight (TreeNode v l r) = r"

fun node_at :: "'a node_ptr \<Rightarrow> dir list \<Rightarrow> 'a node_ptr" where
  "node_at n [] = n"
| "node_at n (d # ds) = node_at (child d n) ds"

fun assign_at :: "'a node_ptr \<Rightarrow> dir list \<Rightarrow> 'a node_ptr \<Rightarrow> 'a node_ptr" where
  "assign_at n [] new = new"
| "assign_at nullptr (d # ds) new = nullptr"
| "assign_at (TreeNode v l r) (GoLeft # ds) new = TreeNode v (assign_at l ds new) r"
| "assign_at (TreeNode v l r) (GoRight # ds) new = TreeNode v l (assign_at r ds new)"

section \<open>insert\<close>

text \<open>
  The \<open>while (tmp != nullptr)\<close> loop of \<open>insert\<close>, lines 78 to 86. The loop state is the
  pair \<open>prev\<close>, \<open>tmp\<close>. The body has a branch for \<open>val > tmp->value\<close> and one for
  \<open>val < tmp->value\<close> and nothing else: when neither holds, the next iteration starts from
  the same state. The loop need not return, hence the result is an option and \<open>None\<close>
  stands for a run that never leaves the loop.
\<close>

partial_function (option) insert_loop ::
  "'a::linorder node_ptr \<Rightarrow> 'a \<Rightarrow> dir list \<Rightarrow> dir list \<Rightarrow> dir list option" where
  "insert_loop rt val prev tmp =
     (case node_at rt tmp of
        nullptr \<Rightarrow> Some prev
      | TreeNode v l r \<Rightarrow>
          if val > v then insert_loop rt val tmp (tmp @ [GoRight])
          else if val < v then insert_loop rt val tmp (tmp @ [GoLeft])
          else insert_loop rt val prev tmp)"

declare insert_loop.simps [code]

text \<open>
  \<open>insert\<close> itself. \<open>prev\<close> is declared without a value in the source; the loop is entered
  with \<open>tmp\<close> at the non-null root, so \<open>prev\<close> is assigned before the loop can end, and
  the initial \<open>[]\<close> below is never read.
\<close>

definition insert_bt :: "'a::linorder BinaryTree \<Rightarrow> 'a \<Rightarrow> 'a BinaryTree option" where
  "insert_bt t val =
     (if root t = nullptr then Some (t\<lparr>root := make_unique val\<rparr>)
      else
        case insert_loop (root t) val [] [] of
          None \<Rightarrow> None
        | Some prev \<Rightarrow>
            if node_value (node_at (root t) prev) > val
            then Some (t\<lparr>root := assign_at (root t) (prev @ [GoLeft]) (make_unique val)\<rparr>)
            else Some (t\<lparr>root := assign_at (root t) (prev @ [GoRight]) (make_unique val)\<rparr>))"

text \<open>A client calling \<open>insert\<close> once for each element of a list, in order.\<close>

fun insert_all :: "'a::linorder BinaryTree \<Rightarrow> 'a list \<Rightarrow> 'a BinaryTree option" where
  "insert_all t [] = Some t"
| "insert_all t (x # xs) =
     (case insert_bt t x of None \<Rightarrow> None | Some t' \<Rightarrow> insert_all t' xs)"

section \<open>contains\<close>

text \<open>
  The \<open>while (curr != nullptr)\<close> loop of \<open>contains\<close>: \<open>curr\<close> only ever moves to a child
  of the node it points to, so the loop is a structural recursion on the subtree at \<open>curr\<close>.
\<close>

fun contains_loop :: "'a::linorder node_ptr \<Rightarrow> 'a \<Rightarrow> bool" where
  "contains_loop nullptr val = False"
| "contains_loop (TreeNode v l r) val =
     (if v = val then True
      else if v > val then contains_loop l val else contains_loop r val)"

definition contains :: "'a::linorder BinaryTree \<Rightarrow> 'a \<Rightarrow> bool" where
  "contains t val = (if root t = nullptr then False else contains_loop (root t) val)"

section \<open>deleteElement\<close>

text \<open>
  \<open>removeNode\<close> overwrites the slot it is given with one of the children of the node in
  that slot; the node itself and its other subtree are destroyed by the move assignment.
  Both call sites pass a slot that holds a node; the first equation is never used by them.
\<close>

fun removeNode :: "'a node_ptr \<Rightarrow> 'a node_ptr" where
  "removeNode nullptr = nullptr"
| "removeNode (TreeNode v l r) = (if l = nullptr then r else l)"

text \<open>
  The loop of lines 237 to 240: starting at a node, follow \<open>left\<close> members while they are
  not null. The result is the node \<open>leftmost\<close> points to at the end.
\<close>

fun leftmost_loop :: "'a node_ptr \<Rightarrow> 'a node_ptr" where
  "leftmost_loop nullptr = nullptr"
| "leftmost_loop (TreeNode v l r) = (if l \<noteq> nullptr then leftmost_loop l else TreeNode v l r)"

text \<open>
  \<open>recursiveDelete\<close> takes the slot by reference and returns a \<open>bool\<close>; the model returns
  the \<open>bool\<close> together with the new content of the slot.
\<close>

fun recursiveDelete :: "'a::linorder node_ptr \<Rightarrow> 'a \<Rightarrow> bool \<times> 'a node_ptr" where
  "recursiveDelete nullptr val = (False, nullptr)"
| "recursiveDelete (TreeNode v l r) val =
     (if v = val then
        (if l \<noteq> nullptr \<and> r \<noteq> nullptr
         then (True, TreeNode (node_value (leftmost_loop r)) l (removeNode r))
         else (True, removeNode (TreeNode v l r)))
      else if val < v
        then (case recursiveDelete l val of (b, l') \<Rightarrow> (b, TreeNode v l' r))
        else (case recursiveDelete r val of (b, r') \<Rightarrow> (b, TreeNode v l r')))"

definition deleteElement :: "'a::linorder BinaryTree \<Rightarrow> 'a \<Rightarrow> bool \<times> 'a BinaryTree" where
  "deleteElement t val =
     (if root t = nullptr then (False, t)
      else case recursiveDelete (root t) val of (b, n) \<Rightarrow> (b, t\<lparr>root := n\<rparr>))"

section \<open>getHeight, getMin, getMax\<close>

fun recursiveGetHeight :: "'a node_ptr \<Rightarrow> nat" where
  "recursiveGetHeight nullptr = 0"
| "recursiveGetHeight (TreeNode v l r) =
     max (recursiveGetHeight l) (recursiveGetHeight r) + 1"

definition getHeight :: "'a BinaryTree \<Rightarrow> nat" where
  "getHeight t = recursiveGetHeight (root t)"

text \<open>
  The loops of \<open>getMax\<close> and \<open>getMin\<close>, each returning the node its pointer ends on.
\<close>

fun getMax_loop :: "'a node_ptr \<Rightarrow> 'a node_ptr" where
  "getMax_loop nullptr = nullptr"
| "getMax_loop (TreeNode v l r) = (if r \<noteq> nullptr then getMax_loop r else TreeNode v l r)"

fun getMin_loop :: "'a node_ptr \<Rightarrow> 'a node_ptr" where
  "getMin_loop nullptr = nullptr"
| "getMin_loop (TreeNode v l r) = (if l \<noteq> nullptr then getMin_loop l else TreeNode v l r)"

definition getMax :: "'a BinaryTree \<Rightarrow> error + 'a" where
  "getMax t =
     (if root t = nullptr then Inl EmptyTreeException
      else Inr (node_value (getMax_loop (root t))))"

definition getMin :: "'a BinaryTree \<Rightarrow> error + 'a" where
  "getMin t =
     (if root t = nullptr then Inl EmptyTreeException
      else Inr (node_value (getMin_loop (root t))))"

section \<open>balance\<close>

text \<open>\<open>makeInOrderVector\<close> appends to the vector it is given by reference.\<close>

fun makeInOrderVector :: "'a list \<Rightarrow> 'a node_ptr \<Rightarrow> 'a list" where
  "makeInOrderVector vec nullptr = vec"
| "makeInOrderVector vec (TreeNode v l r) =
     makeInOrderVector (makeInOrderVector vec l @ [v]) r"

text \<open>
  \<open>makeNode\<close> computes with \<open>int\<close>, here the 32-bit two's complement type; \<open>low\<close>, \<open>high\<close>
  and \<open>mid\<close> are mathematical integers in the model and the two places where C++ leaves
  the behaviour undefined are results of their own: the sum \<open>low + high\<close> leaving the range
  of \<open>int\<close>, and \<open>v[mid]\<close> outside the vector. Division of \<open>int\<close> truncates towards zero.
\<close>

datatype undefined_behaviour = SignedOverflow | OutOfBoundsRead

definition INT_MAX :: int where
  "INT_MAX = 2147483647"

definition INT_MIN :: int where
  "INT_MIN = - 2147483648"

definition int_quot :: "int \<Rightarrow> int \<Rightarrow> int" where
  "int_quot a b = (if (a < 0) = (b < 0) then \<bar>a\<bar> div \<bar>b\<bar> else - (\<bar>a\<bar> div \<bar>b\<bar>))"

function makeNode :: "int \<Rightarrow> int \<Rightarrow> 'a list \<Rightarrow> undefined_behaviour + 'a node_ptr" where
  "makeNode low high v =
     (if low > high then Inr nullptr
      else if low + high > INT_MAX \<or> low + high < INT_MIN then Inl SignedOverflow
      else
        let mid = int_quot (low + high) 2 in
        if mid < 0 \<or> int (length v) \<le> mid then Inl OutOfBoundsRead
        else
          case makeNode low (mid - 1) v of
            Inl e \<Rightarrow> Inl e
          | Inr l \<Rightarrow>
              (case makeNode (mid + 1) high v of
                 Inl e \<Rightarrow> Inl e
               | Inr r \<Rightarrow> Inr (TreeNode (v ! nat mid) l r)))"
  by pat_completeness auto
termination
proof (relation "measure (\<lambda>(low, high, v). nat (high - low + 1))")
  show "wf (measure (\<lambda>(low, high, v::'a list). nat (high - low + 1)))"
    by simp
next
  fix low high :: int and v :: "'a list" and mid
  assume a: "\<not> high < low" "mid = int_quot (low + high) 2"
  have "int_quot (low + high) 2 \<le> high"
    unfolding int_quot_def using a(1) by (simp split: if_splits) linarith
  with a show "((low, mid - 1, v), (low, high, v))
      \<in> measure (\<lambda>(low, high, v). nat (high - low + 1))"
    by simp
next
  fix low high :: int and v :: "'a list" and mid
  assume a: "\<not> high < low" "mid = int_quot (low + high) 2"
  have "low \<le> int_quot (low + high) 2"
    unfolding int_quot_def using a(1) by (simp split: if_splits) linarith
  with a show "((mid + 1, high, v), (low, high, v))
      \<in> measure (\<lambda>(low, high, v). nat (high - low + 1))"
    by simp
qed

declare makeNode.simps [simp del]

text \<open>
  \<open>balance\<close> passes \<open>v.size() - 1\<close>, a \<open>size_t\<close> (64 bits, unsigned, wrapping), where
  \<open>makeNode\<close> takes an \<open>int\<close>: the conversion keeps the low 32 bits and reads them as two's
  complement.
\<close>

type_synonym size_t = "64 word"

definition vector_size :: "'a list \<Rightarrow> size_t" where
  "vector_size v = of_nat (length v)"

definition size_t_to_int :: "size_t \<Rightarrow> int" where
  "size_t_to_int n = sint (ucast n :: 32 word)"

definition balance :: "'a BinaryTree \<Rightarrow> undefined_behaviour + 'a BinaryTree" where
  "balance t =
     (let v = makeInOrderVector [] (root t) in
      case makeNode 0 (size_t_to_int (vector_size v - 1)) v of
        Inl e \<Rightarrow> Inl e
      | Inr n \<Rightarrow> Inr (t\<lparr>root := n\<rparr>))"

section \<open>print\<close>

text \<open>
  The three private traversal functions, under the names the source gives them.
  \<open>std::to_string\<close> belongs to the standard library and is a parameter here.
\<close>

fun recursiveInOrder :: "('a \<Rightarrow> string) \<Rightarrow> 'a node_ptr \<Rightarrow> string" where
  "recursiveInOrder to_string nullptr = ''''"
| "recursiveInOrder to_string (TreeNode v l r) =
     '' '' @ to_string v @ recursiveInOrder to_string l @ recursiveInOrder to_string r"

fun recursivePreOrder :: "('a \<Rightarrow> string) \<Rightarrow> 'a node_ptr \<Rightarrow> string" where
  "recursivePreOrder to_string nullptr = ''''"
| "recursivePreOrder to_string (TreeNode v l r) =
     recursivePreOrder to_string l @ ('' '' @ to_string v) @ recursivePreOrder to_string r"

fun recursivePostOrder :: "('a \<Rightarrow> string) \<Rightarrow> 'a node_ptr \<Rightarrow> string" where
  "recursivePostOrder to_string nullptr = ''''"
| "recursivePostOrder to_string (TreeNode v l r) =
     recursivePostOrder to_string l @ recursivePostOrder to_string r @ ('' '' @ to_string v)"

text \<open>
  The \<open>switch\<close> of \<open>print\<close> covers the three enumerators; the \<open>throw\<close> after it is reached
  by no value of the datatype.
\<close>

definition print :: "('a \<Rightarrow> string) \<Rightarrow> 'a BinaryTree \<Rightarrow> string" where
  "print to_string t =
     (if root t = nullptr then ''''
      else case order t of
        InOrder \<Rightarrow> recursiveInOrder to_string (root t)
      | PreOrder \<Rightarrow> recursivePreOrder to_string (root t)
      | PostOrder \<Rightarrow> recursivePostOrder to_string (root t))"

definition setOrder :: "'a BinaryTree \<Rightarrow> VisitingOrder \<Rightarrow> 'a BinaryTree" where
  "setOrder t newOrder = t\<lparr>order := newOrder\<rparr>"

text \<open>
  \<open>std::to_string\<close> on an \<open>int\<close>: the decimal digits, with a minus sign for a negative
  number. Used where a theorem prints a concrete tree of integers. The first argument of
  \<open>decimal\<close> bounds the number of digits.
\<close>

fun decimal :: "nat \<Rightarrow> nat \<Rightarrow> string" where
  "decimal 0 n = ''''"
| "decimal (Suc k) n =
     (if n < 10 then [char_of (48 + n)]
      else decimal k (n div 10) @ [char_of (48 + n mod 10)])"

definition to_string_int :: "int \<Rightarrow> string" where
  "to_string_int i =
     (if i < 0 then CHR ''-'' # decimal (Suc (nat (- i))) (nat (- i))
      else decimal (Suc (nat i)) (nat i))"

section \<open>Copy construction and copy assignment\<close>

text \<open>
  The loop of the copy constructor, lines 42 to 55: \<open>this\<close> is the tree under
  construction, \<open>curr\<close> the node of \<open>other\<close> the loop is at (only read, so the subtree it
  points to is enough), \<open>remaining\<close> the vector of pending right children. \<open>insert\<close> may
  not return, and then neither does the loop.
\<close>

function copy_loop ::
  "'a::linorder BinaryTree \<Rightarrow> 'a node_ptr \<Rightarrow> 'a node_ptr list \<Rightarrow> 'a BinaryTree option" where
  "copy_loop this nullptr remaining = Some this"
| "copy_loop this (TreeNode v l r) remaining =
     (case insert_bt this v of
        None \<Rightarrow> None
      | Some this' \<Rightarrow>
          let remaining' = (if r \<noteq> nullptr then remaining @ [r] else remaining) in
          if l \<noteq> nullptr then copy_loop this' l remaining'
          else if remaining' = [] then Some this'
          else copy_loop this' (last remaining') (butlast remaining'))"
  by pat_completeness auto
termination
proof (relation "measure (\<lambda>(this, curr, remaining). size curr + sum_list (map size remaining))")
  show "wf (measure (\<lambda>(this :: 'a BinaryTree, curr :: 'a node_ptr, remaining).
      size curr + sum_list (map size remaining)))"
    by simp
next
  fix this this' :: "'a BinaryTree" and v :: 'a and l r :: "'a node_ptr" and remaining remaining'
  assume "remaining' = (if r \<noteq> nullptr then remaining @ [r] else remaining)" "l \<noteq> nullptr"
  then show "((this', l, remaining'), (this, TreeNode v l r, remaining))
      \<in> measure (\<lambda>(this, curr, remaining). size curr + sum_list (map size remaining))"
    by simp
next
  fix this this' :: "'a BinaryTree" and v :: 'a and l r :: "'a node_ptr" and remaining remaining'
  assume a: "remaining' = (if r \<noteq> nullptr then remaining @ [r] else remaining)"
    "\<not> l \<noteq> nullptr" "remaining' \<noteq> []"
  have "sum_list (map size (butlast remaining')) + size (last remaining')
      = sum_list (map size remaining')"
    using a(3) by (induction remaining') auto
  with a show "((this', last remaining', butlast remaining'), (this, TreeNode v l r, remaining))
      \<in> measure (\<lambda>(this, curr, remaining). size curr + sum_list (map size remaining))"
    by (auto split: if_splits)
qed

definition BinaryTree_copy :: "'a::linorder BinaryTree \<Rightarrow> 'a BinaryTree option" where
  "BinaryTree_copy other =
     (case copy_loop \<lparr>root = nullptr, order = InOrder\<rparr> (root other) [] of
        None \<Rightarrow> None
      | Some this \<Rightarrow> Some (this\<lparr>order := order other\<rparr>))"

text \<open>
  \<open>operator=\<close>, lines 59 to 64, has no model here. Its last statement returns the
  prvalue \<open>BinaryTree(other)\<close> through the return type \<open>BinaryTree&\<close>; a non-const lvalue
  reference does not bind to a temporary, so the member function is ill-formed as soon
  as it is instantiated and a program that assigns one tree to another does not compile.
\<close>

section \<open>Notions of the specification\<close>

text \<open>
  The traversal orders as the specification defines them: in-order is left subtree, node,
  right subtree; pre-order is node, left, right; post-order is left, right, node.
\<close>

fun inorder_seq :: "'a node_ptr \<Rightarrow> 'a list" where
  "inorder_seq nullptr = []"
| "inorder_seq (TreeNode v l r) = inorder_seq l @ [v] @ inorder_seq r"

fun preorder_seq :: "'a node_ptr \<Rightarrow> 'a list" where
  "preorder_seq nullptr = []"
| "preorder_seq (TreeNode v l r) = [v] @ preorder_seq l @ preorder_seq r"

fun postorder_seq :: "'a node_ptr \<Rightarrow> 'a list" where
  "postorder_seq nullptr = []"
| "postorder_seq (TreeNode v l r) = postorder_seq l @ postorder_seq r @ [v]"

text \<open>A rendering in which every value token is preceded by a single space.\<close>

definition render_tokens :: "('a \<Rightarrow> string) \<Rightarrow> 'a list \<Rightarrow> string" where
  "render_tokens to_string vs = concat (map (\<lambda>v. '' '' @ to_string v) vs)"

text \<open>
  The search-tree invariant for trees without repeated values: everything in the left
  subtree is smaller than the node, everything in the right subtree greater.
\<close>

fun bst :: "'a::linorder node_ptr \<Rightarrow> bool" where
  "bst nullptr = True"
| "bst (TreeNode v l r) =
     (bst l \<and> bst r \<and> (\<forall>x \<in> set_node_ptr l. x < v) \<and> (\<forall>x \<in> set_node_ptr r. v < x))"

section \<open>Auxiliary functions\<close>

text \<open>
  Two structurally recursive descriptions of \<open>insert\<close>, used in the proofs only.
  \<open>loop_result\<close> is the outcome of the loop started with \<open>tmp\<close> at a given subtree;
  \<open>ins\<close> is the subtree after the new leaf has been attached. Both are \<open>None\<close> when the
  search for \<open>val\<close> meets a node holding \<open>val\<close>. The lemmas \<open>insert_loop_eq_loop_result\<close>
  and \<open>insert_bt_ins\<close> relate them to the model of the source.
\<close>

fun loop_result :: "'a::linorder node_ptr \<Rightarrow> 'a \<Rightarrow> dir list \<Rightarrow> dir list \<Rightarrow> dir list option" where
  "loop_result nullptr val prev tmp = Some prev"
| "loop_result (TreeNode v l r) val prev tmp =
     (if val > v then loop_result r val tmp (tmp @ [GoRight])
      else if val < v then loop_result l val tmp (tmp @ [GoLeft])
      else None)"

fun ins :: "'a::linorder \<Rightarrow> 'a node_ptr \<Rightarrow> 'a node_ptr option" where
  "ins val nullptr = Some (make_unique val)"
| "ins val (TreeNode v l r) =
     (if val > v then map_option (\<lambda>r'. TreeNode v l r') (ins val r)
      else if val < v then map_option (\<lambda>l'. TreeNode v l' r) (ins val l)
      else None)"

text \<open>A sequence of \<open>ins\<close> steps, the counterpart of \<open>insert_all\<close> on subtrees.\<close>

fun ins_list :: "'a::linorder list \<Rightarrow> 'a node_ptr \<Rightarrow> 'a node_ptr option" where
  "ins_list [] n = Some n"
| "ins_list (x # xs) n = (case ins x n of None \<Rightarrow> None | Some n' \<Rightarrow> ins_list xs n')"

text \<open>
  The complete search tree of height \<open>h\<close> that holds the \<open>2 ^ h - 1\<close> consecutive
  integers from \<open>lo\<close> on. It serves as a tree with more elements than an \<open>int\<close> can
  count.
\<close>

fun perfect_tree :: "nat \<Rightarrow> int \<Rightarrow> int node_ptr" where
  "perfect_tree 0 lo = nullptr"
| "perfect_tree (Suc h) lo =
     TreeNode (lo + 2 ^ h - 1) (perfect_tree h lo) (perfect_tree h (lo + 2 ^ h))"

section \<open>Basic facts about the traversals\<close>

lemma makeInOrderVector_inorder_seq: "makeInOrderVector vec n = vec @ inorder_seq n"
  by (induction n arbitrary: vec) simp_all

lemma set_inorder_seq: "set (inorder_seq n) = set_node_ptr n"
  by (induction n) auto

lemma inorder_seq_eq_Nil: "inorder_seq n = [] \<longleftrightarrow> n = nullptr"
  by (cases n) simp_all

section \<open>Deleting a value that is not stored\<close>

lemma recursiveDelete_absent: "val \<notin> set_node_ptr n \<Longrightarrow> recursiveDelete n val = (False, n)"
  by (induction n) auto

text \<open>
  Claim C9. For every tree and every value \<open>val\<close> that no node of the tree stores,
  \<open>deleteElement(val)\<close> returns \<open>false\<close> and leaves the tree as it was, node for node; in
  particular its in-order sequence is unchanged.
\<close>

theorem deleteElement_absent:
  "val \<notin> set_node_ptr (root t) \<Longrightarrow>
     fst (deleteElement t val) = False \<and>
     snd (deleteElement t val) = t \<and>
     inorder_seq (root (snd (deleteElement t val))) = inorder_seq (root t)"
  by (simp add: deleteElement_def recursiveDelete_absent)

theorem deleteElement_absent_witness:
  "(6::int) \<notin> set_node_ptr (root (BinaryTree_val 5 InOrder)) \<and>
   fst (deleteElement (BinaryTree_val 5 InOrder) (6::int)) = False \<and>
   snd (deleteElement (BinaryTree_val 5 InOrder) (6::int)) = BinaryTree_val 5 InOrder \<and>
   inorder_seq (root (snd (deleteElement (BinaryTree_val 5 InOrder) (6::int)))) =
     inorder_seq (root (BinaryTree_val (5::int) InOrder))"
proof -
  have h: "(6::int) \<notin> set_node_ptr (root (BinaryTree_val 5 InOrder))"
    by (simp add: BinaryTree_val_def make_unique_def)
  from deleteElement_absent [OF h] h show ?thesis by blast
qed

section \<open>Minimum and maximum\<close>

lemma getMin_loop_hd: "n \<noteq> nullptr \<Longrightarrow> node_value (getMin_loop n) = hd (inorder_seq n)"
  by (induction n) (auto simp: inorder_seq_eq_Nil)

lemma getMax_loop_last: "n \<noteq> nullptr \<Longrightarrow> node_value (getMax_loop n) = last (inorder_seq n)"
  by (induction n) (auto simp: inorder_seq_eq_Nil)

text \<open>
  Claim C7. \<open>getMin()\<close> and \<open>getMax()\<close> raise \<open>EmptyTreeException\<close> exactly when the
  tree has no root. On a tree with a root the in-order sequence is not empty, \<open>getMin()\<close>
  returns its first element and \<open>getMax()\<close> its last.
\<close>

theorem getMin_getMax_inorder:
  "(getMin t = Inl EmptyTreeException \<longleftrightarrow> root t = nullptr) \<and>
   (getMax t = Inl EmptyTreeException \<longleftrightarrow> root t = nullptr) \<and>
   (root t \<noteq> nullptr \<longrightarrow>
      inorder_seq (root t) \<noteq> [] \<and>
      getMin t = Inr (hd (inorder_seq (root t))) \<and>
      getMax t = Inr (last (inorder_seq (root t))))"
  by (simp add: getMin_def getMax_def getMin_loop_hd getMax_loop_last inorder_seq_eq_Nil)

theorem getMin_getMax_inorder_witness:
  "getMin (BinaryTree_default :: int BinaryTree) = Inl EmptyTreeException \<and>
   getMax (BinaryTree_default :: int BinaryTree) = Inl EmptyTreeException \<and>
   root (BinaryTree_val (5::int) InOrder) \<noteq> nullptr \<and>
   getMin (BinaryTree_val (5::int) InOrder) = Inr 5 \<and>
   getMax (BinaryTree_val (5::int) InOrder) = Inr 5"
proof -
  have e: "root (BinaryTree_default :: int BinaryTree) = nullptr"
    by (simp add: BinaryTree_default_def)
  have h: "root (BinaryTree_val (5::int) InOrder) \<noteq> nullptr"
    by (simp add: BinaryTree_val_def make_unique_def)
  have s: "inorder_seq (root (BinaryTree_val (5::int) InOrder)) = [5]"
    by (simp add: BinaryTree_val_def make_unique_def)
  from getMin_getMax_inorder [of "BinaryTree_default :: int BinaryTree"] e
  have "getMin (BinaryTree_default :: int BinaryTree) = Inl EmptyTreeException"
    and "getMax (BinaryTree_default :: int BinaryTree) = Inl EmptyTreeException"
    by blast+
  moreover from getMin_getMax_inorder [of "BinaryTree_val (5::int) InOrder"] h
  have "getMin (BinaryTree_val (5::int) InOrder) = Inr (hd (inorder_seq (root (BinaryTree_val (5::int) InOrder))))"
    and "getMax (BinaryTree_val (5::int) InOrder) = Inr (last (inorder_seq (root (BinaryTree_val (5::int) InOrder))))"
    by blast+
  ultimately show ?thesis using h s by simp
qed

section \<open>Balancing an empty tree\<close>

lemma size_t_to_int_minus_one: "size_t_to_int (- 1) = - 1"
  unfolding size_t_to_int_def by code_simp

lemma unat_size_t_minus_one: "unat (- 1 :: size_t) = 2 ^ 64 - 1"
  by (simp add: unsigned_minus_1_eq_mask mask_eq_exp_minus_1)

lemma makeNode_empty_range: "high < low \<Longrightarrow> makeNode low high v = Inr nullptr"
  by (subst makeNode.simps) simp

text \<open>
  Claim C10. On a tree without root, \<open>balance()\<close> collects the empty vector; \<open>v.size() - 1\<close>
  wraps around to the largest \<open>size_t\<close>, \<open>2 ^ 64 - 1\<close>; converted to the \<open>int\<close> bound of
  \<open>makeNode\<close> this is \<open>-1\<close>; \<open>makeNode(0, -1, v)\<close> returns \<open>nullptr\<close> without undefined
  behaviour, so without reading an element of \<open>v\<close>; and \<open>balance()\<close> returns with the tree
  unchanged, that is, still empty.
\<close>

theorem balance_empty:
  "root t = nullptr \<Longrightarrow>
     makeInOrderVector [] (root t) = [] \<and>
     unat (vector_size (makeInOrderVector [] (root t)) - 1) = 2 ^ 64 - 1 \<and>
     size_t_to_int (vector_size (makeInOrderVector [] (root t)) - 1) = - 1 \<and>
     makeNode 0 (- 1) (makeInOrderVector [] (root t)) = Inr nullptr \<and>
     balance t = Inr t \<and>
     root t = nullptr"
  by (simp add: balance_def size_t_to_int_minus_one unat_size_t_minus_one vector_size_def
      makeNode_empty_range)

theorem balance_empty_witness:
  "root (BinaryTree_default :: int BinaryTree) = nullptr \<and>
   size_t_to_int
     (vector_size (makeInOrderVector [] (root (BinaryTree_default :: int BinaryTree))) - 1) = - 1 \<and>
   balance (BinaryTree_default :: int BinaryTree) = Inr BinaryTree_default"
proof -
  have h: "root (BinaryTree_default :: int BinaryTree) = nullptr"
    by (simp add: BinaryTree_default_def)
  from balance_empty [OF h] h show ?thesis by blast
qed

section \<open>Inserting a value that is already on the search path\<close>

text \<open>
  When the loop of \<open>insert\<close> stands on a node whose value equals \<open>val\<close>, no iteration
  changes its state, and the loop never ends.
\<close>

lemma insert_loop_stuck:
  assumes "node_at rt tmp = TreeNode val l r"
  shows "insert_loop rt val prev tmp = None"
proof (rule ccontr)
  assume "insert_loop rt val prev tmp \<noteq> None"
  then obtain y where some: "insert_loop rt val prev tmp = Some y"
    by auto
  have "\<forall>l r. node_at rt tmp \<noteq> TreeNode val l r"
  proof (rule insert_loop.raw_induct
      [where P = "\<lambda>rt val prev tmp y. \<forall>l r. node_at rt tmp \<noteq> TreeNode val l r", OF _ some])
    fix f :: "'a node_ptr \<Rightarrow> 'a \<Rightarrow> dir list \<Rightarrow> dir list \<Rightarrow> dir list option"
      and rt' val' prev' tmp' y'
    assume ih: "\<And>rt val prev tmp y. f rt val prev tmp = Some y \<Longrightarrow>
        \<forall>l r. node_at rt tmp \<noteq> TreeNode val l r"
      and step: "(case node_at rt' tmp' of
          nullptr \<Rightarrow> Some prev'
        | TreeNode v l r \<Rightarrow>
            if v < val' then f rt' val' tmp' (tmp' @ [GoRight])
            else if val' < v then f rt' val' tmp' (tmp' @ [GoLeft])
            else f rt' val' prev' tmp') = Some y'"
    show "\<forall>l r. node_at rt' tmp' \<noteq> TreeNode val' l r"
    proof (cases "node_at rt' tmp'")
      case nullptr
      then show ?thesis by simp
    next
      case (TreeNode v l r)
      show ?thesis
      proof (cases "v = val'")
        case True
        with TreeNode step have "f rt' val' prev' tmp' = Some y'" by simp
        from ih [OF this] show ?thesis .
      next
        case False
        with TreeNode show ?thesis by simp
      qed
    qed
  qed
  with assms show False
    by simp
qed

lemma insert_bt_root_value: "root t = TreeNode val l r \<Longrightarrow> insert_bt t val = None"
  by (simp add: insert_bt_def insert_loop_stuck)

text \<open>
  Claim C2 (\<open>insert\<close> returns for every tree and every value, also one that is already
  stored) does not hold of the code. The tree made by \<open>BinaryTree(5)\<close> stores 5 at its
  root; \<open>insert(5)\<close> enters the loop with \<open>tmp\<close> at the root, finds neither \<open>5 > 5\<close> nor
  \<open>5 < 5\<close>, and repeats the iteration for ever: the call does not return.
\<close>

theorem insert_duplicate_never_returns:
  "insert_bt (BinaryTree_val 5 InOrder) (5::int) = None"
  by (simp add: insert_bt_def BinaryTree_val_def make_unique_def insert_loop_stuck)

section \<open>Deleting a node with two children\<close>

text \<open>
  At a node with two children, \<open>recursiveDelete\<close> is right when the right child has no
  left child, since that child is then the leftmost node itself. When the right child has
  a left child, the right child's own value and its whole right subtree are dropped, and
  the leftmost value is stored twice.
\<close>

lemma leftmost_loop_hd: "n \<noteq> nullptr \<Longrightarrow> node_value (leftmost_loop n) = hd (inorder_seq n)"
  by (induction n) (auto simp: inorder_seq_eq_Nil)

lemma recursiveDelete_two_children_right_leaf:
  "l \<noteq> nullptr \<Longrightarrow>
     recursiveDelete (TreeNode v l (TreeNode rv nullptr rr)) v = (True, TreeNode rv l rr)"
  by simp

lemma recursiveDelete_two_children_right_inner:
  "l \<noteq> nullptr \<Longrightarrow> rl \<noteq> nullptr \<Longrightarrow>
     recursiveDelete (TreeNode v l (TreeNode rv rl rr)) v =
       (True, TreeNode (hd (inorder_seq rl)) l rl)"
  using leftmost_loop_hd [of rl] by simp

text \<open>
  Claim C1 (deleting a value stored at a node with two children removes exactly one
  occurrence of it from the in-order sequence) does not hold of the code. Inserting
  5, 3, 8, 1, 4, 7, 9 gives the root 5 with the children 3 and 8; \<open>deleteElement(5)\<close>
  returns \<open>true\<close>, copies 7 (the leftmost value of the right subtree) into the root and
  then calls \<open>removeNode\<close> on the root's \<open>right\<close> slot, which holds 8 and not 7: node 8
  is replaced by its left child 7, and 8 and 9 are lost. The in-order sequence afterwards
  is 1, 3, 4, 7, 7, not 1, 3, 4, 7, 8, 9.
\<close>

theorem deleteElement_two_children_example:
  "map_option root (insert_all BinaryTree_default [5, 3, 8, 1, 4, 7, 9 :: int]) =
     Some (TreeNode 5
       (TreeNode 3 (TreeNode 1 nullptr nullptr) (TreeNode 4 nullptr nullptr))
       (TreeNode 8 (TreeNode 7 nullptr nullptr) (TreeNode 9 nullptr nullptr))) \<and>
   map_option (\<lambda>t. deleteElement t 5) (insert_all BinaryTree_default [5, 3, 8, 1, 4, 7, 9 :: int]) =
     Some (True, \<lparr>root = TreeNode 7
       (TreeNode 3 (TreeNode 1 nullptr nullptr) (TreeNode 4 nullptr nullptr))
       (TreeNode 7 nullptr nullptr), order = InOrder\<rparr>) \<and>
   map_option (\<lambda>t. inorder_seq (root (snd (deleteElement t 5))))
       (insert_all BinaryTree_default [5, 3, 8, 1, 4, 7, 9 :: int]) =
     Some [1, 3, 4, 7, 7]"
  by code_simp

section \<open>What print renders\<close>

lemma recursiveInOrder_is_preorder:
  "recursiveInOrder to_string n = render_tokens to_string (preorder_seq n)"
  by (induction n) (simp_all add: render_tokens_def)

lemma recursivePreOrder_is_inorder:
  "recursivePreOrder to_string n = render_tokens to_string (inorder_seq n)"
  by (induction n) (simp_all add: render_tokens_def)

lemma recursivePostOrder_is_postorder:
  "recursivePostOrder to_string n = render_tokens to_string (postorder_seq n)"
  by (induction n) (simp_all add: render_tokens_def)

text \<open>
  Claim C3 (every token is preceded by one space, and the modes \<open>PreOrder\<close>, \<open>InOrder\<close>,
  \<open>PostOrder\<close> give the pre-order, in-order and post-order sequence) does not hold of
  the code. For the tree with root 2 and children 1 and 3, the mode \<open>InOrder\<close> prints
  the node before its subtrees, \<open>" 2 1 3"\<close>, which is the pre-order sequence, and the
  mode \<open>PreOrder\<close> prints \<open>" 1 2 3"\<close>, the in-order sequence. Only \<open>PostOrder\<close> prints
  what its name says.
\<close>

theorem print_modes_example:
  "map_option (\<lambda>t. print to_string_int (setOrder t InOrder))
       (insert_all BinaryTree_default [2, 1, 3 :: int]) = Some '' 2 1 3'' \<and>
   map_option (\<lambda>t. print to_string_int (setOrder t PreOrder))
       (insert_all BinaryTree_default [2, 1, 3 :: int]) = Some '' 1 2 3'' \<and>
   map_option (\<lambda>t. print to_string_int (setOrder t PostOrder))
       (insert_all BinaryTree_default [2, 1, 3 :: int]) = Some '' 1 3 2'' \<and>
   map_option (\<lambda>t. render_tokens to_string_int (inorder_seq (root t)))
       (insert_all BinaryTree_default [2, 1, 3 :: int]) = Some '' 1 2 3'' \<and>
   map_option (\<lambda>t. render_tokens to_string_int (preorder_seq (root t)))
       (insert_all BinaryTree_default [2, 1, 3 :: int]) = Some '' 2 1 3''"
  by code_simp

section \<open>What insert does when it returns\<close>

lemma node_at_nullptr: "node_at nullptr p = nullptr"
  by (induction p) simp_all

lemma node_at_append: "node_at n (p @ q) = node_at (node_at n p) q"
  by (induction p arbitrary: n) simp_all

lemma node_at_snoc:
  "node_at n p = TreeNode v l r \<Longrightarrow> node_at n (p @ [GoLeft]) = l"
  "node_at n p = TreeNode v l r \<Longrightarrow> node_at n (p @ [GoRight]) = r"
  by (simp_all add: node_at_append)

lemma assign_at_snoc_left:
  "node_at n p = TreeNode v l r \<Longrightarrow> assign_at n (p @ [GoLeft]) x = assign_at n p (TreeNode v x r)"
proof (induction p arbitrary: n)
  case Nil
  then show ?case by simp
next
  case (Cons d p)
  then show ?case
    by (cases n; cases d) (simp_all add: node_at_nullptr)
qed

lemma assign_at_snoc_right:
  "node_at n p = TreeNode v l r \<Longrightarrow> assign_at n (p @ [GoRight]) x = assign_at n p (TreeNode v l x)"
proof (induction p arbitrary: n)
  case Nil
  then show ?case by simp
next
  case (Cons d p)
  then show ?case
    by (cases n; cases d) (simp_all add: node_at_nullptr)
qed

lemma insert_loop_eq_loop_result:
  "node_at rt tmp = n \<Longrightarrow> insert_loop rt val prev tmp = loop_result n val prev tmp"
proof (induction n arbitrary: prev tmp)
  case nullptr
  then show ?case by (subst insert_loop.simps) simp
next
  case (TreeNode v l r)
  show ?case
  proof (cases "v = val")
    case True
    with TreeNode.prems show ?thesis by (simp add: insert_loop_stuck)
  next
    case False
    from TreeNode.prems have l: "node_at rt (tmp @ [GoLeft]) = l" and r: "node_at rt (tmp @ [GoRight]) = r"
      by (simp_all add: node_at_append)
    from False TreeNode.prems TreeNode.IH(1) [OF l] TreeNode.IH(2) [OF r] show ?thesis
      by (subst insert_loop.simps) auto
  qed
qed

lemma loop_result_None: "n \<noteq> nullptr \<Longrightarrow> loop_result n val prev tmp = None \<longleftrightarrow> ins val n = None"
proof (induction n arbitrary: prev tmp)
  case nullptr
  then show ?case by simp
next
  case (TreeNode v l r)
  then show ?case
    by (cases l; cases r) (auto simp: make_unique_def)
qed

lemma loop_result_assign:
  assumes "node_at rt tmp = n" "n \<noteq> nullptr" "loop_result n val prev tmp = Some q"
  shows "\<exists>n'. ins val n = Some n' \<and>
    (if node_value (node_at rt q) > val
     then assign_at rt (q @ [GoLeft]) (make_unique val)
     else assign_at rt (q @ [GoRight]) (make_unique val)) = assign_at rt tmp n'"
  using assms
proof (induction n arbitrary: prev tmp)
  case nullptr
  then show ?case by simp
next
  case (TreeNode v l r)
  note at = \<open>node_at rt tmp = TreeNode v l r\<close>
  from TreeNode.prems(3) have neq: "v \<noteq> val"
    by (auto split: if_splits)
  show ?case
  proof (cases "v < val")
    case True
    with TreeNode.prems(3) have res: "loop_result r val tmp (tmp @ [GoRight]) = Some q"
      by simp
    show ?thesis
    proof (cases "r = nullptr")
      case True
      with res have "q = tmp" by simp
      moreover from \<open>v < val\<close> have "\<not> val < v" by simp
      ultimately show ?thesis
        using at True \<open>v < val\<close> by (simp add: assign_at_snoc_right)
    next
      case False
      from at have "node_at rt (tmp @ [GoRight]) = r"
        by (simp add: node_at_append)
      from TreeNode.IH(2) [OF this False res] obtain r' where
        "ins val r = Some r'" and "(if node_value (node_at rt q) > val
           then assign_at rt (q @ [GoLeft]) (make_unique val)
           else assign_at rt (q @ [GoRight]) (make_unique val)) = assign_at rt (tmp @ [GoRight]) r'"
        by blast
      with at \<open>v < val\<close> show ?thesis
        by (simp add: assign_at_snoc_right)
    qed
  next
    case False
    note False' = this
    with neq have lt: "val < v" by simp
    with TreeNode.prems(3) False' have res: "loop_result l val tmp (tmp @ [GoLeft]) = Some q"
      by simp
    show ?thesis
    proof (cases "l = nullptr")
      case True
      with res have "q = tmp" by simp
      with at True lt False' show ?thesis
        by (simp add: assign_at_snoc_left)
    next
      case False
      from at have "node_at rt (tmp @ [GoLeft]) = l"
        by (simp add: node_at_append)
      from TreeNode.IH(1) [OF this False res] obtain l' where
        "ins val l = Some l'" and "(if node_value (node_at rt q) > val
           then assign_at rt (q @ [GoLeft]) (make_unique val)
           else assign_at rt (q @ [GoRight]) (make_unique val)) = assign_at rt (tmp @ [GoLeft]) l'"
        by blast
      with at lt False' show ?thesis
        by (simp add: assign_at_snoc_left)
    qed
  qed
qed

lemma insert_bt_ins:
  "insert_bt t val = map_option (\<lambda>n. t\<lparr>root := n\<rparr>) (ins val (root t))"
proof (cases "root t = nullptr")
  case True
  then show ?thesis by (simp add: insert_bt_def)
next
  case False
  have loop: "insert_loop (root t) val [] [] = loop_result (root t) val [] []"
    by (rule insert_loop_eq_loop_result) simp
  show ?thesis
  proof (cases "loop_result (root t) val [] []")
    case None
    with False loop_result_None [OF False, of val "[]" "[]"] loop show ?thesis
      by (simp add: insert_bt_def)
  next
    case (Some q)
    from loop_result_assign [of "root t" "[]", OF _ False Some] False loop Some show ?thesis
      by (auto simp: insert_bt_def)
  qed
qed

lemma ins_set: "ins val n = Some n' \<Longrightarrow> set_node_ptr n' = insert val (set_node_ptr n)"
  by (induction n arbitrary: n') (auto simp: make_unique_def split: if_splits)

lemma ins_bst: "bst n \<Longrightarrow> ins val n = Some n' \<Longrightarrow> bst n'"
proof (induction n arbitrary: n')
  case nullptr
  then show ?case by (auto simp: make_unique_def)
next
  case (TreeNode v l r)
  from TreeNode.prems(2) have neq: "v \<noteq> val"
    by (auto split: if_splits)
  show ?case
  proof (cases "v < val")
    case True
    with TreeNode.prems(2) obtain r' where r': "ins val r = Some r'" and n': "n' = TreeNode v l r'"
      by auto
    from TreeNode.prems(1) TreeNode.IH(2) [OF _ r'] have "bst r'"
      by simp
    with TreeNode.prems(1) True ins_set [OF r'] n' show ?thesis
      by simp
  next
    case False
    with neq have lt: "val < v" by simp
    with TreeNode.prems(2) False obtain l' where l': "ins val l = Some l'" and n': "n' = TreeNode v l' r"
      by auto
    from TreeNode.prems(1) TreeNode.IH(1) [OF _ l'] have "bst l'"
      by simp
    with TreeNode.prems(1) lt ins_set [OF l'] n' show ?thesis
      by simp
  qed
qed

lemma ins_None_iff: "bst n \<Longrightarrow> ins val n = None \<longleftrightarrow> val \<in> set_node_ptr n"
  by (induction n) (auto simp: make_unique_def)
lemma contains_loop_bst: "bst n \<Longrightarrow> contains_loop n val \<longleftrightarrow> val \<in> set_node_ptr n"
  by (induction n) auto
lemma bst_inorder_seq: "bst n \<Longrightarrow> sorted_wrt (<) (inorder_seq n)"
  by (induction n) (fastforce simp: sorted_wrt_append set_inorder_seq)+

lemma insert_all_bst:
  "bst (root t) \<Longrightarrow> insert_all t vs = Some t' \<Longrightarrow>
     bst (root t') \<and> set_node_ptr (root t') = set_node_ptr (root t) \<union> set vs \<and> order t' = order t"
proof (induction vs arbitrary: t)
  case Nil
  then show ?case by simp
next
  case (Cons x vs)
  from Cons.prems(2) obtain t1 where t1: "insert_bt t x = Some t1" and rest: "insert_all t1 vs = Some t'"
    by (auto split: option.splits)
  from t1 obtain n1 where n1: "ins x (root t) = Some n1" and t1_eq: "t1 = t\<lparr>root := n1\<rparr>"
    by (auto simp: insert_bt_ins)
  from ins_bst [OF Cons.prems(1) n1] t1_eq have "bst (root t1)"
    by simp
  from Cons.IH [OF this rest] ins_set [OF n1] t1_eq show ?case
    by auto
qed

lemma insert_all_Some:
  "bst (root t) \<Longrightarrow> distinct vs \<Longrightarrow> set vs \<inter> set_node_ptr (root t) = {} \<Longrightarrow>
     \<exists>t'. insert_all t vs = Some t'"
proof (induction vs arbitrary: t)
  case Nil
  then show ?case by simp
next
  case (Cons x vs)
  from Cons.prems have "x \<notin> set_node_ptr (root t)"
    by auto
  with Cons.prems(1) obtain n1 where n1: "ins x (root t) = Some n1"
    using ins_None_iff [of "root t" x] by auto
  let ?t1 = "t\<lparr>root := n1\<rparr>"
  have t1: "insert_bt t x = Some ?t1"
    by (simp add: insert_bt_ins n1)
  have "bst (root ?t1)"
    using ins_bst [OF Cons.prems(1) n1] by simp
  moreover have "distinct vs"
    using Cons.prems(2) by simp
  moreover have "set vs \<inter> set_node_ptr (root ?t1) = {}"
    using Cons.prems(2,3) ins_set [OF n1] by auto
  ultimately obtain t' where "insert_all ?t1 vs = Some t'"
    using Cons.IH by blast
  with t1 show ?case by simp
qed

lemma bst_BinaryTree_default: "bst (root BinaryTree_default)"
  by (simp add: BinaryTree_default_def)

text \<open>
  Claim C5. Every tree built from the empty tree by a sequence of \<open>insert\<close> calls that
  all return has a non-decreasing in-order sequence, which is also what
  \<open>makeInOrderVector\<close> collects; and the calls do all return when the inserted values
  are pairwise distinct.
\<close>

theorem insert_all_inorder_sorted:
  "(distinct vs \<longrightarrow> insert_all BinaryTree_default vs \<noteq> None) \<and>
   (\<forall>t. insert_all BinaryTree_default vs = Some t \<longrightarrow>
      sorted (inorder_seq (root t)) \<and>
      makeInOrderVector [] (root t) = inorder_seq (root t))"
proof (intro conjI impI allI)
  assume "distinct vs"
  with insert_all_Some [OF bst_BinaryTree_default, of vs]
  show "insert_all BinaryTree_default vs \<noteq> None"
    by (auto simp: BinaryTree_default_def)
next
  fix t
  assume "insert_all BinaryTree_default vs = Some t"
  from insert_all_bst [OF bst_BinaryTree_default this] have "bst (root t)"
    by simp
  then have "sorted_wrt (<) (inorder_seq (root t))"
    by (rule bst_inorder_seq)
  then show "sorted (inorder_seq (root t))"
    by (rule strict_sorted_imp_sorted)
next
  fix t :: "'a BinaryTree"
  show "makeInOrderVector [] (root t) = inorder_seq (root t)"
    by (simp add: makeInOrderVector_inorder_seq)
qed

theorem insert_all_inorder_sorted_witness:
  "distinct [5, 3, 8, 1, 4, 7, 9 :: int] \<and>
   insert_all BinaryTree_default [5, 3, 8, 1, 4, 7, 9 :: int] =
     Some \<lparr>root = TreeNode 5
       (TreeNode 3 (TreeNode 1 nullptr nullptr) (TreeNode 4 nullptr nullptr))
       (TreeNode 8 (TreeNode 7 nullptr nullptr) (TreeNode 9 nullptr nullptr)), order = InOrder\<rparr> \<and>
   sorted (inorder_seq (TreeNode 5
       (TreeNode 3 (TreeNode 1 nullptr nullptr) (TreeNode 4 nullptr nullptr))
       (TreeNode 8 (TreeNode 7 nullptr nullptr) (TreeNode 9 nullptr (nullptr :: int node_ptr)))))"
proof -
  have d: "distinct [5, 3, 8, 1, 4, 7, 9 :: int]"
    by simp
  have e: "insert_all BinaryTree_default [5, 3, 8, 1, 4, 7, 9 :: int] =
     Some \<lparr>root = TreeNode 5
       (TreeNode 3 (TreeNode 1 nullptr nullptr) (TreeNode 4 nullptr nullptr))
       (TreeNode 8 (TreeNode 7 nullptr nullptr) (TreeNode 9 nullptr nullptr)), order = InOrder\<rparr>"
    by code_simp
  from insert_all_inorder_sorted [of "[5, 3, 8, 1, 4, 7, 9 :: int]"] e
  have "sorted (inorder_seq (root \<lparr>root = TreeNode 5
       (TreeNode 3 (TreeNode 1 nullptr nullptr) (TreeNode 4 nullptr nullptr))
       (TreeNode 8 (TreeNode 7 nullptr nullptr) (TreeNode 9 nullptr (nullptr :: int node_ptr))), order = InOrder\<rparr>))"
    by blast
  then have "sorted (inorder_seq (TreeNode 5
       (TreeNode 3 (TreeNode 1 nullptr nullptr) (TreeNode 4 nullptr nullptr))
       (TreeNode 8 (TreeNode 7 nullptr nullptr) (TreeNode 9 nullptr (nullptr :: int node_ptr)))))"
    by (simp only: BinaryTree.simps)
  with d e show ?thesis
    by (intro conjI)
qed

text \<open>
  Claim C6. Inserting pairwise distinct values, in any order, into the empty tree returns
  a tree on which \<open>contains(v)\<close> is true exactly for the inserted values; and on a tree
  without root \<open>contains\<close> is false for every value.
\<close>

theorem insert_all_contains:
  "(distinct vs \<longrightarrow>
      (\<exists>t. insert_all BinaryTree_default vs = Some t \<and> (\<forall>v. contains t v = (v \<in> set vs)))) \<and>
   (root e = nullptr \<longrightarrow> \<not> contains e w)"
proof (intro conjI impI)
  assume "distinct vs"
  with insert_all_Some [OF bst_BinaryTree_default, of vs]
  obtain t where t: "insert_all BinaryTree_default vs = Some t"
    by (auto simp: BinaryTree_default_def)
  from insert_all_bst [OF bst_BinaryTree_default t]
  have b: "bst (root t)" and s: "set_node_ptr (root t) = set vs"
    by (simp_all add: BinaryTree_default_def)
  have "contains t v = (v \<in> set vs)" for v
  proof (cases "root t = nullptr")
    case True
    with s show ?thesis by (simp add: contains_def)
  next
    case False
    with contains_loop_bst [OF b, of v] s show ?thesis
      by (simp add: contains_def)
  qed
  with t show "\<exists>t. insert_all BinaryTree_default vs = Some t \<and> (\<forall>v. contains t v = (v \<in> set vs))"
    by blast
next
  assume "root e = nullptr"
  then show "\<not> contains e w"
    by (simp add: contains_def)
qed

theorem insert_all_contains_witness:
  "distinct [2, 1, 3 :: int] \<and>
   (\<exists>t. insert_all BinaryTree_default [2, 1, 3 :: int] = Some t \<and>
      contains t 1 \<and> contains t 2 \<and> contains t 3 \<and> \<not> contains t 7) \<and>
   root (BinaryTree_default :: int BinaryTree) = nullptr \<and>
   \<not> contains (BinaryTree_default :: int BinaryTree) 7"
proof -
  have d: "distinct [2, 1, 3 :: int]"
    by simp
  have r: "root (BinaryTree_default :: int BinaryTree) = nullptr"
    by (simp add: BinaryTree_default_def)
  from insert_all_contains [of "[2, 1, 3 :: int]" "BinaryTree_default :: int BinaryTree" 7] d r
  obtain t where t: "insert_all BinaryTree_default [2, 1, 3 :: int] = Some t"
    and c: "\<And>v. contains t v = (v \<in> set [2, 1, 3 :: int])"
    and n: "\<not> contains (BinaryTree_default :: int BinaryTree) 7"
    by blast
  have "contains t 1" "contains t 2" "contains t 3" "\<not> contains t 7"
    by (simp_all add: c)
  with t d r n show ?thesis
    by blast
qed

lemma insert_bt_None_iff: "bst (root t) \<Longrightarrow> insert_bt t val = None \<longleftrightarrow> val \<in> set_node_ptr (root t)"
  by (simp add: insert_bt_ins ins_None_iff)

section \<open>Search trees are what insert builds\<close>

lemma insert_all_ins_list:
  "insert_all t vs = map_option (\<lambda>n. t\<lparr>root := n\<rparr>) (ins_list vs (root t))"
proof (induction vs arbitrary: t)
  case Nil
  then show ?case by simp
next
  case (Cons x vs)
  show ?case
  proof (cases "ins x (root t)")
    case None
    then show ?thesis by (simp add: insert_bt_ins)
  next
    case (Some n1)
    then show ?thesis by (simp add: insert_bt_ins Cons.IH option.map_comp comp_def)
  qed
qed

lemma ins_list_append:
  "ins_list (xs @ ys) n = (case ins_list xs n of None \<Rightarrow> None | Some n' \<Rightarrow> ins_list ys n')"
  by (induction xs arbitrary: n) (simp_all split: option.splits)

lemma ins_list_left:
  "\<forall>x \<in> set xs. x < v \<Longrightarrow>
     ins_list xs (TreeNode v a b) = map_option (\<lambda>a'. TreeNode v a' b) (ins_list xs a)"
proof (induction xs arbitrary: a)
  case Nil
  then show ?case by simp
next
  case (Cons x xs)
  then have "x < v" "\<not> v < x" by auto
  with Cons show ?case
    by (cases "ins x a") simp_all
qed

lemma ins_list_right:
  "\<forall>x \<in> set xs. v < x \<Longrightarrow>
     ins_list xs (TreeNode v a b) = map_option (\<lambda>b'. TreeNode v a b') (ins_list xs b)"
proof (induction xs arbitrary: b)
  case Nil
  then show ?case by simp
next
  case (Cons x xs)
  then have "v < x" by auto
  with Cons show ?case
    by (cases "ins x b") simp_all
qed

lemma set_preorder_seq: "set (preorder_seq n) = set_node_ptr n"
  by (induction n) auto

lemma ins_list_preorder: "bst n \<Longrightarrow> ins_list (preorder_seq n) nullptr = Some n"
proof (induction n)
  case nullptr
  then show ?case by simp
next
  case (TreeNode v l r)
  from TreeNode.prems have l: "\<forall>x \<in> set (preorder_seq l). x < v"
    and r: "\<forall>x \<in> set (preorder_seq r). v < x"
    by (simp_all add: set_preorder_seq)
  from TreeNode have "ins_list (preorder_seq l) nullptr = Some l" "ins_list (preorder_seq r) nullptr = Some r"
    by simp_all
  then show ?case
    by (simp add: make_unique_def ins_list_append ins_list_left [OF l] ins_list_right [OF r])
qed

lemma insert_all_preorder:
  "bst n \<Longrightarrow> insert_all \<lparr>root = nullptr, order = ord\<rparr> (preorder_seq n) = Some \<lparr>root = n, order = ord\<rparr>"
  by (simp add: insert_all_ins_list ins_list_preorder)

section \<open>What copy construction does\<close>

text \<open>
  The loop of the copy constructor inserts the values of \<open>other\<close> in pre-order. On a
  search tree without repeated values this rebuilds the tree node for node. On a tree
  that stores a value twice, such as the one \<open>deleteElement(5)\<close> leaves behind above, the
  second \<open>insert\<close> of that value does not return.
\<close>

lemma copy_loop_insert_all:
  "node \<noteq> nullptr \<Longrightarrow> nullptr \<notin> set remaining \<Longrightarrow>
     copy_loop this node remaining =
       insert_all this (preorder_seq node @ concat (map preorder_seq (rev remaining)))"
proof (induction this node remaining rule: copy_loop.induct)
  case (1 this remaining)
  then show ?case by simp
next
  case (2 this v l r remaining)
  show ?case
  proof (cases "insert_bt this v")
    case None
    then show ?thesis by simp
  next
    case (Some this')
    define remaining' where "remaining' = (if r \<noteq> nullptr then remaining @ [r] else remaining)"
    have nn: "nullptr \<notin> set remaining'"
      using "2.prems"(2) by (simp add: remaining'_def)
    have rest: "preorder_seq r @ concat (map preorder_seq (rev remaining))
        = concat (map preorder_seq (rev remaining'))"
      by (simp add: remaining'_def)
    show ?thesis
    proof (cases "l \<noteq> nullptr")
      case True
      from "2.IH"(1) [OF Some remaining'_def True True nn] Some True rest show ?thesis
        by (simp add: remaining'_def [symmetric])
    next
      case False
      show ?thesis
      proof (cases "remaining' = []")
        case True
        then have "r = nullptr" "remaining = []"
          by (auto simp: remaining'_def split: if_splits)
        with False Some show ?thesis
          by simp
      next
        case ne: False
        have "rev (butlast remaining' @ [last remaining']) = last remaining' # rev (butlast remaining')"
          by simp
        with ne have split: "rev remaining' = last remaining' # rev (butlast remaining')"
          by simp
        from ne nn have "last remaining' \<noteq> nullptr"
          by (metis last_in_set)
        moreover from nn have "nullptr \<notin> set (butlast remaining')"
          by (auto dest: in_set_butlastD)
        ultimately have "copy_loop this' (last remaining') (butlast remaining') =
          insert_all this' (preorder_seq (last remaining') @ concat (map preorder_seq (rev (butlast remaining'))))"
          using "2.IH"(2) [OF Some remaining'_def _ ne] False by simp
        with False Some ne rest split show ?thesis
          by (simp add: remaining'_def [symmetric])
      qed
    qed
  qed
qed

lemma BinaryTree_copy_bst: "bst (root other) \<Longrightarrow> BinaryTree_copy other = Some other"
proof (cases "root other = nullptr")
  case True
  then show ?thesis by (simp add: BinaryTree_copy_def)
next
  case False
  assume "bst (root other)"
  with copy_loop_insert_all [OF False, of "[]" "\<lparr>root = nullptr, order = InOrder\<rparr>"] show ?thesis
    by (simp add: BinaryTree_copy_def insert_all_preorder)
qed

lemma BinaryTree_copy_repeated_value:
  "BinaryTree_copy \<lparr>root = TreeNode 7
       (TreeNode 3 (TreeNode 1 nullptr nullptr) (TreeNode 4 nullptr nullptr))
       (TreeNode 7 nullptr nullptr), order = InOrder\<rparr> = (None :: int BinaryTree option)"
proof -
  let ?n = "TreeNode 7
       (TreeNode 3 (TreeNode 1 nullptr nullptr) (TreeNode 4 nullptr nullptr))
       (TreeNode 7 nullptr (nullptr :: int node_ptr))"
  have "copy_loop \<lparr>root = nullptr, order = InOrder\<rparr> ?n [] =
      insert_all \<lparr>root = nullptr, order = InOrder\<rparr> (preorder_seq ?n @ concat (map preorder_seq (rev [])))"
    by (rule copy_loop_insert_all) simp_all
  also have "\<dots> = None"
    by (simp add: insert_all_ins_list make_unique_def)
  finally show ?thesis
    by (simp add: BinaryTree_copy_def del: copy_loop.simps)
qed

text \<open>
  Claim C4 (copy construction and copy assignment give a tree with the in-order sequence
  and the traversal order of the source, independent of it) does not hold of the code.
  Inserting 5, 3, 8, 1, 4, 7, 9 and calling \<open>deleteElement(5)\<close> leaves the tree with root
  7, left subtree 3 over 1 and 4, and right child 7. Copy construction from this tree
  inserts 7, 3, 1 and 4 and then the second 7, which meets the root's equal value in the
  loop of \<open>insert\<close>: the constructor never returns, and no copy is produced.
\<close>

theorem BinaryTree_copy_after_delete_never_returns:
  "map_option (\<lambda>t. snd (deleteElement t 5))
       (insert_all BinaryTree_default [5, 3, 8, 1, 4, 7, 9 :: int]) =
     Some \<lparr>root = TreeNode 7
       (TreeNode 3 (TreeNode 1 nullptr nullptr) (TreeNode 4 nullptr nullptr))
       (TreeNode 7 nullptr nullptr), order = InOrder\<rparr> \<and>
   BinaryTree_copy \<lparr>root = TreeNode 7
       (TreeNode 3 (TreeNode 1 nullptr nullptr) (TreeNode 4 nullptr nullptr))
       (TreeNode 7 nullptr nullptr), order = InOrder\<rparr> = (None :: int BinaryTree option)"
proof
  show "map_option (\<lambda>t. snd (deleteElement t 5))
       (insert_all BinaryTree_default [5, 3, 8, 1, 4, 7, 9 :: int]) =
     Some \<lparr>root = TreeNode 7
       (TreeNode 3 (TreeNode 1 nullptr nullptr) (TreeNode 4 nullptr nullptr))
       (TreeNode 7 nullptr nullptr), order = InOrder\<rparr>"
    by code_simp
next
  show "BinaryTree_copy \<lparr>root = TreeNode 7
       (TreeNode 3 (TreeNode 1 nullptr nullptr) (TreeNode 4 nullptr nullptr))
       (TreeNode 7 nullptr nullptr), order = InOrder\<rparr> = (None :: int BinaryTree option)"
    by (rule BinaryTree_copy_repeated_value)
qed

section \<open>Balancing\<close>

text \<open>
  The conversion of \<open>v.size() - 1\<close> to \<open>int\<close> is exact as long as the vector has at most
  \<open>2 ^ 31\<close> elements.
\<close>

lemma size_t_to_int_of_nat:
  assumes "m < 2 ^ 31"
  shows "size_t_to_int (of_nat m) = int m"
proof -
  have "take_bit 64 m = m"
    using assms by (simp add: take_bit_nat_eq_self_iff order_less_trans [where y = "2 ^ 31"])
  then have "(ucast (of_nat m :: 64 word) :: 32 word) = of_nat m"
    by (simp add: unsigned_of_nat)
  moreover have "sint (of_nat m :: 32 word) = int m"
    using assms by (simp add: signed_of_nat signed_take_bit_int_eq_self)
  ultimately show ?thesis
    by (simp add: size_t_to_int_def)
qed

lemma size_t_to_int_size_minus_1:
  assumes "length v \<le> 2 ^ 31"
  shows "size_t_to_int (vector_size v - 1) = int (length v) - 1"
proof (cases "length v")
  case 0
  then show ?thesis by (simp add: vector_size_def size_t_to_int_minus_one)
next
  case (Suc m)
  with assms have "m < 2 ^ 31" by simp
  from size_t_to_int_of_nat [OF this] Suc show ?thesis
    by (simp add: vector_size_def)
qed

text \<open>
  On a range inside the vector whose bounds are small enough for \<open>low + high\<close> to stay an
  \<open>int\<close>, \<open>makeNode\<close> returns a tree whose in-order sequence is that range of the vector
  and whose height \<open>h\<close> satisfies \<open>2 ^ h \<le> 2 * length\<close>.
\<close>

lemma int_quot_nonneg: "0 \<le> a \<Longrightarrow> int_quot a 2 = a div 2"
  by (simp add: int_quot_def)

lemma makeNode_step:
  assumes "0 \<le> low" "low \<le> high" "high < int (length v)" "low + high \<le> INT_MAX"
  shows "makeNode low high v =
    (case makeNode low ((low + high) div 2 - 1) v of
       Inl e \<Rightarrow> Inl e
     | Inr l \<Rightarrow>
         (case makeNode ((low + high) div 2 + 1) high v of
            Inl e \<Rightarrow> Inl e
          | Inr r \<Rightarrow> Inr (TreeNode (v ! nat ((low + high) div 2)) l r)))"
proof -
  have "\<not> low + high < INT_MIN"
    using assms(1,2) by (simp add: INT_MIN_def)
  moreover have "0 \<le> (low + high) div 2" "(low + high) div 2 < int (length v)"
    using assms(1-3) by simp_all
  ultimately show ?thesis
    using assms by (subst makeNode.simps) (simp add: int_quot_nonneg Let_def)
qed

lemma makeNode_in_range:
  "0 \<le> low \<Longrightarrow> high < int (length v) \<Longrightarrow> 2 * high \<le> INT_MAX \<Longrightarrow>
     \<exists>n. makeNode low high v = Inr n \<and>
       inorder_seq n = map (\<lambda>i. v ! nat i) [low..high] \<and>
       2 ^ recursiveGetHeight n \<le> max 1 (2 * nat (high - low + 1))"
proof (induction "nat (high - low + 1)" arbitrary: low high rule: less_induct)
  case less
  show ?case
  proof (cases "high < low")
    case True
    then show ?thesis
      by (simp add: makeNode_empty_range)
  next
    case False
    let ?mid = "(low + high) div 2"
    from False have le: "low \<le> high" by simp
    with less.prems have step: "makeNode low high v =
      (case makeNode low (?mid - 1) v of
         Inl e \<Rightarrow> Inl e
       | Inr l \<Rightarrow>
           (case makeNode (?mid + 1) high v of
              Inl e \<Rightarrow> Inl e
            | Inr r \<Rightarrow> Inr (TreeNode (v ! nat ?mid) l r)))"
      by (intro makeNode_step) simp_all
    have mid: "low \<le> ?mid" "?mid \<le> high"
      using le by simp_all
    have "nat (?mid - 1 - low + 1) < nat (high - low + 1)"
      using mid le by simp
    from less.hyps [OF this] less.prems mid
    obtain l where l: "makeNode low (?mid - 1) v = Inr l"
      and l_seq: "inorder_seq l = map (\<lambda>i. v ! nat i) [low..?mid - 1]"
      and l_h: "2 ^ recursiveGetHeight l \<le> max 1 (2 * nat (?mid - 1 - low + 1))"
      by (auto simp: INT_MAX_def)
    have "nat (high - (?mid + 1) + 1) < nat (high - low + 1)"
      using mid le by simp
    from less.hyps [OF this] less.prems mid
    obtain r where r: "makeNode (?mid + 1) high v = Inr r"
      and r_seq: "inorder_seq r = map (\<lambda>i. v ! nat i) [?mid + 1..high]"
      and r_h: "2 ^ recursiveGetHeight r \<le> max 1 (2 * nat (high - (?mid + 1) + 1))"
      by (auto simp: INT_MAX_def)
    have res: "makeNode low high v = Inr (TreeNode (v ! nat ?mid) l r)"
      using step l r by simp
    have "[low..high] = [low..?mid - 1] @ ?mid # [?mid + 1..high]"
      using mid by (rule upto_split3)
    then have seq: "inorder_seq (TreeNode (v ! nat ?mid) l r) = map (\<lambda>i. v ! nat i) [low..high]"
      by (simp add: l_seq r_seq)
    define k where "k = nat (high - low + 1)"
    define kl where "kl = nat (?mid - 1 - low + 1)"
    define kr where "kr = nat (high - (?mid + 1) + 1)"
    have k: "1 \<le> k" "2 * kl \<le> k" "2 * kr \<le> k"
      unfolding k_def kl_def kr_def using mid le by linarith+
    from k have "max 1 (2 * kl) \<le> k" "max 1 (2 * kr) \<le> k"
      by simp_all
    with l_h r_h have "2 ^ recursiveGetHeight l \<le> k" "2 ^ recursiveGetHeight r \<le> k"
      unfolding kl_def kr_def by (blast intro: order_trans)+
    then have "(2::nat) ^ max (recursiveGetHeight l) (recursiveGetHeight r) \<le> k"
      by (cases "recursiveGetHeight l \<le> recursiveGetHeight r") (simp_all add: max_def)
    then have "2 * (2::nat) ^ max (recursiveGetHeight l) (recursiveGetHeight r) \<le> max 1 (2 * k)"
      by simp
    then have h: "2 ^ recursiveGetHeight (TreeNode (v ! nat ?mid) l r)
        \<le> max 1 (2 * nat (high - low + 1))"
      unfolding k_def by simp
    from res seq h show ?thesis
      by blast
  qed
qed

lemma map_nth_upto: "map (\<lambda>i. v ! nat i) [0..int (length v) - 1] = v"
proof -
  have "[0..int n - 1] = map int [0..<n]" for n
  proof (induction n)
    case 0
    then show ?case by simp
  next
    case (Suc n)
    have "[0..int (Suc n) - 1] = [0..int n - 1] @ [int n]"
      using upto_rec2 [of 0 "int n"] by simp
    with Suc show ?case by simp
  qed
  then have "map (\<lambda>i. v ! nat i) [0..int (length v) - 1] = map ((!) v) [0..<length v]"
    by (simp add: comp_def)
  then show ?thesis
    by (simp add: map_nth)
qed

lemma makeNode_lower_middle:
  assumes "0 \<le> low" "low \<le> high" "high < int (length v)" "2 * high \<le> INT_MAX"
  shows "\<exists>l r. makeNode low high v = Inr (TreeNode (v ! nat ((low + high) div 2)) l r) \<and>
    makeNode low ((low + high) div 2 - 1) v = Inr l \<and>
    makeNode ((low + high) div 2 + 1) high v = Inr r"
proof -
  let ?mid = "(low + high) div 2"
  have mid: "low \<le> ?mid" "?mid \<le> high"
    using assms(2) by simp_all
  from makeNode_in_range [of low "?mid - 1" v] assms mid
  obtain l where l: "makeNode low (?mid - 1) v = Inr l"
    by auto
  from makeNode_in_range [of "?mid + 1" high v] assms mid
  obtain r where r: "makeNode (?mid + 1) high v = Inr r"
    by auto
  from assms have "low + high \<le> INT_MAX"
    by simp
  from makeNode_step [OF assms(1-3) this] l r show ?thesis
    by simp
qed

lemma balance_in_range:
  assumes "length (inorder_seq (root t)) \<le> 2 ^ 30"
  shows "\<exists>t'. balance t = Inr t' \<and>
    inorder_seq (root t') = inorder_seq (root t) \<and>
    order t' = order t \<and>
    getHeight t' \<le> ceillog2 (length (inorder_seq (root t)) + 1)"
proof -
  let ?v = "inorder_seq (root t)"
  have v: "makeInOrderVector [] (root t) = ?v"
    by (simp add: makeInOrderVector_inorder_seq)
  from assms have "length ?v \<le> 2 ^ 31"
    by simp
  then have high: "size_t_to_int (vector_size ?v - 1) = int (length ?v) - 1"
    by (rule size_t_to_int_size_minus_1)
  have "2 * (int (length ?v) - 1) \<le> INT_MAX"
    using assms by (simp add: INT_MAX_def)
  with makeNode_in_range [of 0 "int (length ?v) - 1" ?v]
  obtain n where n: "makeNode 0 (int (length ?v) - 1) ?v = Inr n"
    and seq: "inorder_seq n = map (\<lambda>i. ?v ! nat i) [0..int (length ?v) - 1]"
    and h: "2 ^ recursiveGetHeight n \<le> max 1 (2 * nat (int (length ?v) - 1 - 0 + 1))"
    by auto
  from h have "2 ^ recursiveGetHeight n < 2 * (length ?v + 1)"
    by (simp add: max_def split: if_splits)
  then have "recursiveGetHeight n \<le> ceillog2 (length ?v + 1)"
    by (simp add: ceillog2_ge_iff)
  moreover from seq have "inorder_seq n = ?v"
    by (simp only: map_nth_upto)
  moreover have "balance t = Inr (t\<lparr>root := n\<rparr>)"
    by (simp add: balance_def v high n)
  ultimately show ?thesis
    by (simp add: getHeight_def)
qed

lemma length_inorder_perfect_tree: "length (inorder_seq (perfect_tree h lo)) = 2 ^ h - 1"
proof (induction h arbitrary: lo)
  case 0
  then show ?case by simp
next
  case (Suc h)
  have "(1::nat) \<le> 2 ^ h" by simp
  with Suc show ?case by simp
qed

lemma set_perfect_tree: "set_node_ptr (perfect_tree h lo) = {lo..lo + 2 ^ h - 2}"
proof (induction h arbitrary: lo)
  case 0
  then show ?case by simp
next
  case (Suc h)
  have "(1::int) \<le> 2 ^ h" by simp
  with Suc show ?case by auto
qed

lemma bst_perfect_tree: "bst (perfect_tree h lo)"
  by (induction h arbitrary: lo) (simp_all add: set_perfect_tree)

lemma size_t_to_int_example: "size_t_to_int 4294967294 = - 2"
  unfolding size_t_to_int_def by simp

text \<open>
  Claim C8 (for every tree holding \<open>n\<close> elements, \<open>balance()\<close> keeps the in-order
  sequence, leaves a height of at most \<open>\<lceil>log2 (n + 1)\<rceil>\<close>, and picks the lower-middle
  index of each range) holds of the code up to \<open>n = 2 ^ 30\<close>, by \<open>balance_in_range\<close>
  and \<open>makeNode_lower_middle\<close>, and not for every tree. The complete search tree of
  height 32 on the integers from \<open>-2147483648\<close> on holds \<open>4294967295\<close> elements;
  \<open>v.size() - 1\<close> is \<open>4294967294\<close>, which converted to \<open>int\<close> is \<open>-2\<close>; \<open>makeNode(0, -2, v)\<close>
  returns \<open>nullptr\<close>, and \<open>balance()\<close> leaves the tree empty.
\<close>

theorem balance_huge_tree_example:
  "length (inorder_seq (perfect_tree 32 (- 2147483648))) = 4294967295 \<and>
   balance \<lparr>root = perfect_tree 32 (- 2147483648), order = InOrder\<rparr> =
     Inr \<lparr>root = nullptr, order = InOrder\<rparr>"
proof -
  have len: "length (inorder_seq (perfect_tree 32 (- 2147483648))) = 4294967295"
    by (simp add: length_inorder_perfect_tree)
  then have "vector_size (inorder_seq (perfect_tree 32 (- 2147483648))) - 1 = 4294967294"
    by (simp add: vector_size_def)
  then have "size_t_to_int (vector_size (inorder_seq (perfect_tree 32 (- 2147483648))) - 1) = - 2"
    by (simp only: size_t_to_int_example)
  then have "balance \<lparr>root = perfect_tree 32 (- 2147483648), order = InOrder\<rparr> =
     Inr \<lparr>root = nullptr, order = InOrder\<rparr>"
    by (simp add: balance_def makeInOrderVector_inorder_seq makeNode_empty_range)
  with len show ?thesis
    by (intro conjI)
qed

end
